theory Spec2Isabelle
  imports Complex_Main "HOL-Library.AList" "HOL-Library.Log_Nat"
begin

section \<open>The quiz session core of \<^verbatim>\<open>app.py\<close>\<close>

text \<open>
  The program keeps one process-wide dictionary \<^verbatim>\<open>games\<close> from room codes to room
  dictionaries. HTTP handlers and the websocket handler read and mutate it and send JSON
  messages on the websockets stored in it. The embedding threads the registry through
  every operation and returns, next to the new registry, the list of effects on the
  outside world in the order the code performs them, and what the caller gets back
  (a JSON object or the exception the handler leaves with).

  Conventions of the embedding:
  \<^item> the event-loop clock \<^verbatim>\<open>asyncio.get_event_loop().time()\<close> is an input \<open>now\<close>, a
    real number; Python floats are IEEE 754 doubles, so every arithmetic operation on
    floats rounds its exact result to the nearest double (see the section on floats);
  \<^item> a websocket object is a handle of type \<open>websocket\<close>; \<^verbatim>\<open>send_json\<close>, \<^verbatim>\<open>accept\<close>
    and \<^verbatim>\<open>close\<close> are recorded as events and are taken to succeed;
  \<^item> the websocket handler's local \<^verbatim>\<open>game\<close> is the object \<^verbatim>\<open>games[pin]\<close>: no
    operation removes a room, and a room object is replaced only if \<^verbatim>\<open>create_game\<close>
    draws a code that is already in use, after which the handlers of the old room are
    not followed any further. The handler's local \<^verbatim>\<open>role\<close> is a function of the
    participant id, so one loop iteration is a function of the registry;
  \<^item> a message from a client is the JSON value that \<^verbatim>\<open>receive_json\<close> returned;
  \<^item> Python dictionaries whose iteration order is observable (\<^verbatim>\<open>players\<close>,
    \<^verbatim>\<open>answers_count\<close>) are association lists with \<^const>\<open>AList.update\<close>, which
    overwrites in place and appends new keys, as a \<^verbatim>\<open>dict\<close> does.
\<close>

subsection \<open>Values and errors\<close>

datatype json =
    JNull
  | JBool bool
  | JNum real
  | JStr string
  | JArr "json list"
  | JObj "(string \<times> json) list"

datatype error =
    HTTPException nat
  | KeyError
  | IndexError
  | TypeError
  | AttributeError
  | OverflowError

type_synonym response = "(string \<times> json) list"

type_synonym websocket = nat

text \<open>\<^verbatim>\<open>xs[i]\<close> on a Python list: a negative index counts from the end, anything
  outside raises \<^verbatim>\<open>IndexError\<close>.\<close>

definition py_index :: "'a list \<Rightarrow> int \<Rightarrow> error + 'a" where
  "py_index xs i =
     (if 0 \<le> i \<and> i < int (length xs) then Inr (xs ! nat i)
      else if i < 0 \<and> - int (length xs) \<le> i then Inr (xs ! nat (int (length xs) + i))
      else Inl IndexError)"

subsection \<open>Python floats\<close>

text \<open>
  A Python \<^verbatim>\<open>float\<close> is an IEEE 754 binary64 number: a significand of 53 bits, normal
  exponents from \<open>-1022\<close> to \<open>1023\<close>, subnormal numbers below, and the two infinities.
  The finite ones are real numbers. An arithmetic operation computes the exact result
  and rounds it to the nearest double, a tie going to the double with the even
  significand; a result of magnitude \<open>2 ^ 1024\<close> or more after rounding is an infinity.
  No operation of the program can produce a NaN or tell the two zeros apart.
\<close>

datatype pyfloat = Finite real | PosInf | NegInf

text \<open>For \<open>y > 0\<close>, the exponent \<open>e\<close> with \<open>2 ^ e \<le> y < 2 ^ (e + 1)\<close>, computed from
  the bit length of the integer part of \<open>y\<close> or of \<open>1 / y\<close>.\<close>

definition expo :: "real \<Rightarrow> int" where
  "expo y = (if 1 \<le> y then bitlen \<lfloor>y\<rfloor> - 1 else - bitlen (\<lceil>1 / y\<rceil> - 1))"

definition round_half_even :: "real \<Rightarrow> int" where
  "round_half_even q =
     (let f = \<lfloor>q\<rfloor>; d = q - of_int f
      in if d < 1 / 2 then f else if 1 / 2 < d then f + 1 else if even f then f else f + 1)"

text \<open>The exponent of the unit in the last place of the doubles around \<open>x\<close>: 52 below
  the exponent of \<open>x\<close>, and never below that of the subnormal numbers.\<close>

definition ulp_exp :: "real \<Rightarrow> int" where
  "ulp_exp x = max (expo \<bar>x\<bar>) (- 1022) - 52"

text \<open>Rounding to the nearest double, before the test for overflow.\<close>

definition float_round :: "real \<Rightarrow> real" where
  "float_round x =
     (if x = 0 then 0
      else of_int (round_half_even (x / 2 powi ulp_exp x)) * 2 powi ulp_exp x)"

text \<open>The float that an operation with exact result \<open>x\<close> returns.\<close>

definition float_of :: "real \<Rightarrow> pyfloat" where
  "float_of x =
     (let r = float_round x
      in if 2 ^ 1024 \<le> r then PosInf else if r \<le> - (2 ^ 1024) then NegInf else Finite r)"

text \<open>\<^verbatim>\<open>int(x)\<close> on a finite float truncates towards zero.\<close>

definition py_int :: "real \<Rightarrow> int" where
  "py_int x = (if 0 \<le> x then \<lfloor>x\<rfloor> else \<lceil>x\<rceil>)"

subsection \<open>Question bank and constants\<close>

record option_rec =
  opt_id :: string
  opt_text :: string

record question =
  qtext :: string
  options :: "option_rec list"
  answer :: string

definition QUESTIONS :: "question list" where
  "QUESTIONS =
    [\<lparr>qtext = ''What is FastAPI?'',
      options = [\<lparr>opt_id = ''A'', opt_text = ''Framework''\<rparr>,
                 \<lparr>opt_id = ''B'', opt_text = ''DB''\<rparr>,
                 \<lparr>opt_id = ''C'', opt_text = ''OS''\<rparr>,
                 \<lparr>opt_id = ''D'', opt_text = ''Browser''\<rparr>],
      answer = ''A''\<rparr>,
     \<lparr>qtext = ''WebSocket is for?'',
      options = [\<lparr>opt_id = ''A'', opt_text = ''Mail''\<rparr>,
                 \<lparr>opt_id = ''B'', opt_text = ''Realtime''\<rparr>,
                 \<lparr>opt_id = ''C'', opt_text = ''Storage''\<rparr>,
                 \<lparr>opt_id = ''D'', opt_text = ''Auth''\<rparr>],
      answer = ''B''\<rparr>]"

definition QUESTION_TIME :: int where
  "QUESTION_TIME = 15"

definition BASE_SCORE :: int where
  "BASE_SCORE = 1000"

definition OPTION_COLOR_MAP :: "(string \<times> string) list" where
  "OPTION_COLOR_MAP =
     [(''A'', ''blue''), (''B'', ''yellow''), (''C'', ''red''), (''D'', ''green'')]"

text \<open>\<^verbatim>\<open>{v: k for k, v in OPTION_COLOR_MAP.items()}\<close>\<close>

definition COLOR_OPTION_MAP :: "(string \<times> string) list" where
  "COLOR_OPTION_MAP = foldl (\<lambda>d (k, v). AList.update v k d) [] OPTION_COLOR_MAP"

subsection \<open>Rooms and participants\<close>

record player =
  name :: string
  score :: int
  ws :: "websocket option"
  role :: string

record game =
  question_index :: int
  started :: bool
  locked :: bool
  question_start :: "real option"
  players :: "(string \<times> player) list"
  answered :: "string set"
  answers_count :: "(string \<times> int) list"

type_synonym games = "string \<rightharpoonup> game"

subsection \<open>Messages and effects\<close>

datatype message =
    Question string "option_rec list" int
  | Lock string
  | QuestionEnd
  | Stats "(string \<times> int) list"
  | Players "string list"
  | Leaderboard bool "(string \<times> int) list"
  | Wait
  | ShowChart

datatype event =
    Send websocket message
  | Accept websocket
  | Close websocket nat
  | CreateTask string int

text \<open>The loop \<^verbatim>\<open>for p in game["players"].values(): if <cond> and p["ws"]: await
  p["ws"].send_json(<msg>)\<close> that every broadcast of the program is an instance of.\<close>

definition send_each :: "(player \<Rightarrow> bool) \<Rightarrow> (player \<Rightarrow> message) \<Rightarrow> game \<Rightarrow> event list" where
  "send_each cond msg g =
     concat (map (\<lambda>p. case ws p of
                         None \<Rightarrow> []
                       | Some w \<Rightarrow> if cond p then [Send w (msg p)] else [])
                 (map snd (players g)))"

subsection \<open>Broadcasts\<close>

definition send_answer_stats :: "games \<Rightarrow> string \<Rightarrow> error + event list" where
  "send_answer_stats gs pin =
     (case gs pin of
        None \<Rightarrow> Inl KeyError
      | Some g \<Rightarrow>
          Inr (send_each (\<lambda>p. role p = ''HOST'' \<or> role p = ''SCREEN'')
                         (\<lambda>p. Stats (answers_count g)) g))"

definition notify_question_end :: "games \<Rightarrow> string \<Rightarrow> error + event list" where
  "notify_question_end gs pin =
     (case gs pin of
        None \<Rightarrow> Inl KeyError
      | Some g \<Rightarrow> Inr (send_each (\<lambda>p. role p = ''HOST'') (\<lambda>p. QuestionEnd) g))"

definition broadcast_players :: "games \<Rightarrow> string \<Rightarrow> error + event list" where
  "broadcast_players gs pin =
     (case gs pin of
        None \<Rightarrow> Inl KeyError
      | Some g \<Rightarrow>
          (let visible = map name (filter (\<lambda>p. role p = ''player'') (map snd (players g)))
           in Inr (send_each (\<lambda>p. True) (\<lambda>p. Players visible) g)))"

text \<open>\<^verbatim>\<open>sorted(..., key=score, reverse=True)\<close> is stable: participants with equal
  scores keep their dictionary order, as \<^const>\<open>sort_key\<close> on the negated score does.\<close>

definition send_leaderboard :: "games \<Rightarrow> string \<Rightarrow> bool \<Rightarrow> error + event list" where
  "send_leaderboard gs pin finished =
     (case gs pin of
        None \<Rightarrow> Inl KeyError
      | Some g \<Rightarrow>
          (let leaderboard =
                 sort_key (\<lambda>p. - score p)
                   (filter (\<lambda>p. role p = ''player'') (map snd (players g)));
               payload = Leaderboard finished (map (\<lambda>p. (name p, score p)) leaderboard)
           in Inr (send_each (\<lambda>p. True)
                     (\<lambda>p. if finished \<or> role p = ''HOST'' \<or> role p = ''SCREEN''
                           then payload else Wait) g)))"

subsection \<open>HTTP handlers\<close>

text \<open>\<^verbatim>\<open>create_game\<close>: the six characters cut from a fresh UUID are the input \<open>pin\<close>.\<close>

definition create_game :: "games \<Rightarrow> string \<Rightarrow> games \<times> event list \<times> (error + response)" where
  "create_game gs pin =
     (gs(pin \<mapsto> \<lparr>question_index = - 1, started = False, locked = True,
                  question_start = None, players = [], answered = {},
                  answers_count = []\<rparr>),
      [], Inr [(''pin'', JStr pin)])"

definition check_pin :: "games \<Rightarrow> string \<Rightarrow> response" where
  "check_pin gs pin =
     (case gs pin of
        None \<Rightarrow> [(''valid'', JBool False)]
      | Some g \<Rightarrow> [(''valid'', JBool True), (''started'', JBool (started g))])"

definition next_question ::
  "games \<Rightarrow> string \<Rightarrow> real \<Rightarrow> games \<times> event list \<times> (error + response)" where
  "next_question gs pin now =
     (case gs pin of
        None \<Rightarrow> (gs, [], Inl (HTTPException 404))
      | Some g0 \<Rightarrow>
          (let g1 = g0\<lparr>started := True\<rparr>;
               g2 = g1\<lparr>question_index := question_index g1 + 1\<rparr>;
               gs2 = gs(pin \<mapsto> g2)
           in if int (length QUESTIONS) \<le> question_index g2 then
                (case send_leaderboard gs2 pin True of
                   Inl e \<Rightarrow> (gs2, [], Inl e)
                 | Inr evs \<Rightarrow> (gs2, evs, Inr [(''status'', JStr ''finished'')]))
              else
                (case py_index QUESTIONS (question_index g2) of
                   Inl e \<Rightarrow> (gs2, [], Inl e)
                 | Inr q \<Rightarrow>
                     (let g3 = g2\<lparr>locked := False,
                                  answered := {},
                                  answers_count :=
                                    foldl (\<lambda>d o'. AList.update (opt_id o') 0 d) [] (options q),
                                  question_start := Some now\<rparr>
                      in (gs(pin \<mapsto> g3),
                          send_each (\<lambda>p. True)
                            (\<lambda>p. Question (qtext q) (options q) QUESTION_TIME) g3
                            @ [CreateTask pin (question_index g3)],
                          Inr [(''status'', JStr ''sent'')])))))"

text \<open>\<^verbatim>\<open>lock_question\<close> after its \<^verbatim>\<open>asyncio.sleep(QUESTION_TIME)\<close>: what the task
  created by \<^const>\<open>next_question\<close> does when the timer fires. The task's own result
  is nobody's return value; \<open>Inl e\<close> records that it died with exception \<open>e\<close>.\<close>

definition lock_question ::
  "games \<Rightarrow> string \<Rightarrow> int \<Rightarrow> games \<times> event list \<times> (error + unit)" where
  "lock_question gs pin q_index =
     (case gs pin of
        None \<Rightarrow> (gs, [], Inr ())
      | Some g0 \<Rightarrow>
          if question_index g0 \<noteq> q_index then (gs, [], Inr ())
          else
            (let g1 = g0\<lparr>locked := True\<rparr>; gs1 = gs(pin \<mapsto> g1)
             in case py_index QUESTIONS q_index of
                  Inl e \<Rightarrow> (gs1, [], Inl e)
                | Inr q \<Rightarrow>
                    (let evs = send_each (\<lambda>p. True) (\<lambda>p. Lock (answer q)) g1
                     in case notify_question_end gs1 pin of
                          Inl e \<Rightarrow> (gs1, evs, Inl e)
                        | Inr evs' \<Rightarrow> (gs1, evs @ evs', Inr ()))))"

definition show_chart :: "games \<Rightarrow> string \<Rightarrow> games \<times> event list \<times> (error + response)" where
  "show_chart gs pin =
     (case gs pin of
        None \<Rightarrow> (gs, [], Inl KeyError)
      | Some g \<Rightarrow>
          (gs, send_each (\<lambda>p. role p = ''SCREEN'') (\<lambda>p. ShowChart) g,
           Inr [(''ok'', JBool True)]))"

definition show_leaderboard_api ::
  "games \<Rightarrow> string \<Rightarrow> games \<times> event list \<times> (error + response)" where
  "show_leaderboard_api gs pin =
     (case send_leaderboard gs pin False of
        Inl e \<Rightarrow> (gs, [], Inl e)
      | Inr evs \<Rightarrow> (gs, evs, Inr [(''ok'', JBool True)]))"

subsection \<open>The websocket handler\<close>

text \<open>The handler \<^verbatim>\<open>player_ws\<close> is a coroutine: the part before its loop runs when a
  client connects, one loop iteration runs for each JSON value received, and the
  \<^verbatim>\<open>except WebSocketDisconnect\<close> branch runs when the client goes away. Each of the
  three is one function here. The \<open>nm\<close> of the connect is the path segment after
  \<^verbatim>\<open>unquote\<close>.\<close>

definition role_of :: "string \<Rightarrow> string" where
  "role_of player_id =
     (if player_id = ''HOST'' \<or> player_id = ''SCREEN'' then player_id else ''player'')"

datatype connect_result = Listening | Returned | ConnectRaised error

definition player_ws_connect ::
  "games \<Rightarrow> websocket \<Rightarrow> string \<Rightarrow> string \<Rightarrow> string \<Rightarrow> games \<times> event list \<times> connect_result" where
  "player_ws_connect gs w pin player_id nm =
     (case gs pin of
        None \<Rightarrow> (gs, [Close w 1008], Returned)
      | Some g \<Rightarrow>
          (let entry = \<lparr>name = nm,
                        score = (case map_of (players g) player_id of
                                   None \<Rightarrow> 0
                                 | Some p \<Rightarrow> score p),
                        ws = Some w,
                        role = role_of player_id\<rparr>;
               gs1 = gs(pin \<mapsto> g\<lparr>players := AList.update player_id entry (players g)\<rparr>)
           in case broadcast_players gs1 pin of
                Inl e \<Rightarrow> (gs1, [Accept w], ConnectRaised e)
              | Inr evs \<Rightarrow> (gs1, Accept w # evs, Listening)))"

text \<open>\<^verbatim>\<open>data.get(key)\<close>: \<^verbatim>\<open>receive_json\<close> returns whatever JSON value the client sent,
  and only a \<^verbatim>\<open>dict\<close> has a \<^verbatim>\<open>get\<close>. A missing key gives \<^verbatim>\<open>None\<close>, which is what
  JSON \<^verbatim>\<open>null\<close> parses to.\<close>

definition data_get :: "json \<Rightarrow> string \<Rightarrow> error + json" where
  "data_get data key =
     (case data of
        JObj kvs \<Rightarrow> Inr (case map_of kvs key of None \<Rightarrow> JNull | Some v \<Rightarrow> v)
      | _ \<Rightarrow> Inl AttributeError)"

text \<open>\<^verbatim>\<open>COLOR_OPTION_MAP.get(selected_color)\<close>: the lookup hashes its argument, and a
  list or a dict is unhashable. Every key of the table is a string, so no other value
  is found.\<close>

definition color_option_get :: "json \<Rightarrow> error + string option" where
  "color_option_get selected_color =
     (case selected_color of
        JStr s \<Rightarrow> Inr (map_of COLOR_OPTION_MAP s)
      | JArr _ \<Rightarrow> Inl TypeError
      | JObj _ \<Rightarrow> Inl TypeError
      | _ \<Rightarrow> Inr None)"

text \<open>Line 191, \<^verbatim>\<open>remaining = max(0, QUESTION_TIME - elapsed)\<close>: the subtraction is a
  float operation, and \<^verbatim>\<open>max\<close> returns its first argument unless the second is
  greater.\<close>

definition remaining_time :: "pyfloat \<Rightarrow> pyfloat" where
  "remaining_time elapsed =
     (case elapsed of
        Finite e \<Rightarrow>
          (case float_of (real_of_int QUESTION_TIME - e) of
             Finite r \<Rightarrow> Finite (max 0 r)
           | PosInf \<Rightarrow> PosInf
           | NegInf \<Rightarrow> Finite 0)
      | PosInf \<Rightarrow> Finite 0
      | NegInf \<Rightarrow> PosInf)"

text \<open>Lines 191 and 192, \<^verbatim>\<open>score = int(BASE_SCORE * (remaining / QUESTION_TIME))\<close>: a
  float division, a float multiplication and the conversion to \<^verbatim>\<open>int\<close>. Both
  constants are positive, so an infinite \<^verbatim>\<open>remaining\<close> stays infinite, and \<^verbatim>\<open>int\<close>
  of an infinity raises \<^verbatim>\<open>OverflowError\<close>.\<close>

definition answer_score :: "pyfloat \<Rightarrow> error + int" where
  "answer_score elapsed =
     (case remaining_time elapsed of
        Finite remaining \<Rightarrow>
          (case float_of (remaining / real_of_int QUESTION_TIME) of
             Finite ratio \<Rightarrow>
               (case float_of (real_of_int BASE_SCORE * ratio) of
                  Finite v \<Rightarrow> Inr (py_int v)
                | _ \<Rightarrow> Inl OverflowError)
           | _ \<Rightarrow> Inl OverflowError)
      | _ \<Rightarrow> Inl OverflowError)"

datatype loop_result = Skipped | Handled | LoopRaised error | NotConnected | Left

text \<open>Lines 174 to 197, the part of an iteration behind the four \<^verbatim>\<open>continue\<close> guards.
  An exception leaves the mutations made before it in place. Line 190,
  \<^verbatim>\<open>elapsed = asyncio.get_event_loop().time() - game["question_start"]\<close>, is a float
  subtraction of two clock readings.\<close>

definition count_and_score ::
  "games \<Rightarrow> string \<Rightarrow> game \<Rightarrow> string \<Rightarrow> json \<Rightarrow> string \<Rightarrow> real
     \<Rightarrow> games \<times> event list \<times> loop_result" where
  "count_and_score gs pin g player_id selected_color selected_id now =
     (case map_of (answers_count g) selected_id of
        None \<Rightarrow> (gs, [], LoopRaised KeyError)
      | Some c \<Rightarrow>
          (let g1 = g\<lparr>answers_count := AList.update selected_id (c + 1) (answers_count g)\<rparr>;
               gs1 = gs(pin \<mapsto> g1)
           in case py_index QUESTIONS (question_index g1) of
                Inl e \<Rightarrow> (gs1, [], LoopRaised e)
              | Inr q \<Rightarrow>
                 (case map_of OPTION_COLOR_MAP (answer q) of
                    None \<Rightarrow> (gs1, [], LoopRaised KeyError)
                  | Some correct_color \<Rightarrow>
                     (case map_of (players g1) player_id of
                        None \<Rightarrow> (gs1, [], LoopRaised KeyError)
                      | Some p \<Rightarrow>
                         if selected_color = JStr correct_color then
                           (case question_start g1 of
                              None \<Rightarrow> (gs1, [], LoopRaised TypeError)
                            | Some t0 \<Rightarrow>
                               (case answer_score (float_of (now - t0)) of
                                  Inl e \<Rightarrow> (gs1, [], LoopRaised e)
                                | Inr points \<Rightarrow>
                                   (let g2 = g1\<lparr>players :=
                                                  AList.update player_id
                                                    (p\<lparr>score := score p + points\<rparr>)
                                                    (players g1)\<rparr>;
                                        gs2 = gs(pin \<mapsto> g2)
                                    in case send_answer_stats gs2 pin of
                                         Inl e \<Rightarrow> (gs2, [], LoopRaised e)
                                       | Inr evs \<Rightarrow> (gs2, evs, Handled))))
                         else
                           (case send_answer_stats gs1 pin of
                              Inl e \<Rightarrow> (gs1, [], LoopRaised e)
                            | Inr evs \<Rightarrow> (gs1, evs, Handled))))))"

text \<open>One iteration of the \<^verbatim>\<open>while True\<close> loop, for the value \<open>data\<close> that
  \<^verbatim>\<open>receive_json\<close> returned at time \<open>now\<close>. A room that does not exist has no
  handler in its loop (the connect returned at line 134).\<close>

definition player_ws_receive ::
  "games \<Rightarrow> string \<Rightarrow> string \<Rightarrow> json \<Rightarrow> real \<Rightarrow> games \<times> event list \<times> loop_result" where
  "player_ws_receive gs pin player_id data now =
     (case gs pin of
        None \<Rightarrow> (gs, [], NotConnected)
      | Some g \<Rightarrow>
          if role_of player_id \<noteq> ''player'' then (gs, [], Skipped)
          else
            (case data_get data ''type'' of
               Inl e \<Rightarrow> (gs, [], LoopRaised e)
             | Inr ty \<Rightarrow>
                 if ty \<noteq> JStr ''answer'' then (gs, [], Skipped)
                 else if locked g \<or> player_id \<in> answered g then (gs, [], Skipped)
                 else
                   (case data_get data ''option'' of
                      Inl e \<Rightarrow> (gs, [], LoopRaised e)
                    | Inr selected_color \<Rightarrow>
                        (case color_option_get selected_color of
                           Inl e \<Rightarrow> (gs, [], LoopRaised e)
                         | Inr None \<Rightarrow> (gs, [], Skipped)
                         | Inr (Some selected_id) \<Rightarrow>
                             if selected_id = [] then (gs, [], Skipped)
                             else count_and_score gs pin g player_id selected_color
                                    selected_id now))))"

text \<open>The \<^verbatim>\<open>except WebSocketDisconnect\<close> branch.\<close>

definition player_ws_disconnect ::
  "games \<Rightarrow> string \<Rightarrow> string \<Rightarrow> games \<times> event list \<times> loop_result" where
  "player_ws_disconnect gs pin player_id =
     (case gs pin of
        None \<Rightarrow> (gs, [], NotConnected)
      | Some g \<Rightarrow>
          (case map_of (players g) player_id of
             None \<Rightarrow> (gs, [], LoopRaised KeyError)
           | Some p \<Rightarrow>
               (let gs1 = gs(pin \<mapsto> g\<lparr>players :=
                                         AList.update player_id (p\<lparr>ws := None\<rparr>) (players g)\<rparr>)
                in case broadcast_players gs1 pin of
                     Inl e \<Rightarrow> (gs1, [], LoopRaised e)
                   | Inr evs \<Rightarrow> (gs1, evs, Left))))"

subsection \<open>Runs of the system\<close>

text \<open>A sequence of \<^verbatim>\<open>POST /next/{pin}\<close> calls on one room, at the given clock
  readings: the registry after the last call and what each call returned.\<close>

fun advances :: "games \<Rightarrow> string \<Rightarrow> real list \<Rightarrow> games \<times> (error + response) list" where
  "advances gs pin [] = (gs, [])"
| "advances gs pin (now # nows) =
     (case next_question gs pin now of
        (gs1, evs, r) \<Rightarrow>
          (case advances gs1 pin nows of (gs2, rs) \<Rightarrow> (gs2, r # rs)))"

text \<open>Everything that can happen to the registry: a request to one of the HTTP
  endpoints, a deadline timer firing, and the three phases of a websocket handler.\<close>

datatype operation =
    CreateGame string
  | CheckPin string
  | NextQuestion string real
  | LockQuestion string int
  | ShowChartReq string
  | ShowLeaderboardReq string
  | Connect websocket string string string
  | Receive string string json real
  | Disconnect string string

fun step :: "games \<Rightarrow> operation \<Rightarrow> games" where
  "step gs (CreateGame pin) = fst (create_game gs pin)"
| "step gs (CheckPin pin) = gs"
| "step gs (NextQuestion pin now) = fst (next_question gs pin now)"
| "step gs (LockQuestion pin q_index) = fst (lock_question gs pin q_index)"
| "step gs (ShowChartReq pin) = fst (show_chart gs pin)"
| "step gs (ShowLeaderboardReq pin) = fst (show_leaderboard_api gs pin)"
| "step gs (Connect w pin player_id nm) = fst (player_ws_connect gs w pin player_id nm)"
| "step gs (Receive pin player_id data now) = fst (player_ws_receive gs pin player_id data now)"
| "step gs (Disconnect pin player_id) = fst (player_ws_disconnect gs pin player_id)"

definition run :: "operation list \<Rightarrow> games" where
  "run ops = foldl step Map.empty ops"

subsection \<open>Invariant and example inputs\<close>

text \<open>Every score that a lookup in a room's \<^verbatim>\<open>players\<close> dictionary can return is
  non-negative.\<close>

definition scores_nonneg :: "games \<Rightarrow> bool" where
  "scores_nonneg gs \<longleftrightarrow>
     (\<forall>pin g player_id p.
        gs pin = Some g \<longrightarrow> map_of (players g) player_id = Some p \<longrightarrow> 0 \<le> score p)"

text \<open>A room on its last question, with a host and three players, one of them
  disconnected.\<close>

definition room_ex :: game where
  "room_ex =
     \<lparr>question_index = 1, started = True, locked = False, question_start = Some 5,
      players = [(''HOST'', \<lparr>name = ''host'', score = 0, ws = Some 1, role = ''HOST''\<rparr>),
                 (''p1'', \<lparr>name = ''Ann'', score = 200, ws = Some 2, role = ''player''\<rparr>),
                 (''p2'', \<lparr>name = ''Bob'', score = 900, ws = None, role = ''player''\<rparr>),
                 (''p3'', \<lparr>name = ''Cy'', score = 200, ws = Some 4, role = ''player''\<rparr>)],
      answered = {},
      answers_count = [(''A'', 0), (''B'', 2), (''C'', 1), (''D'', 0)]\<rparr>"

text \<open>The message \<^verbatim>\<open>{"type": "answer", "option": "blue"}\<close>.\<close>

definition blue_answer :: json where
  "blue_answer = JObj [(''type'', JStr ''answer''), (''option'', JStr ''blue'')]"

text \<open>A room is created, host, screen and one player connect, and the host opens the
  first question at clock reading 100.\<close>

definition quiz_ops :: "operation list" where
  "quiz_ops =
     [CreateGame ''ABC123'', Connect 1 ''ABC123'' ''HOST'' ''host'',
      Connect 2 ''ABC123'' ''SCREEN'' ''screen'', Connect 3 ''ABC123'' ''p1'' ''Ann'',
      NextQuestion ''ABC123'' 100]"

text \<open>The host then advances twice more within the first window, which exhausts the
  bank of two questions, and the deadline timers of both questions fire afterwards.\<close>

definition finished_ops :: "operation list" where
  "finished_ops =
     quiz_ops @ [NextQuestion ''ABC123'' 101, NextQuestion ''ABC123'' 102,
                 LockQuestion ''ABC123'' 0, LockQuestion ''ABC123'' 1]"

section \<open>Properties\<close>

subsection \<open>Broadcast loops\<close>

lemma set_send_each:
  "set (send_each c m g) =
     {Send w (m p) | p w. p \<in> snd ` set (players g) \<and> ws p = Some w \<and> c p}"
  unfolding send_each_def by (auto split: option.splits if_splits) force

lemma send_each_all:
  "send_each (\<lambda>p. True) (\<lambda>p. m) g =
     map (\<lambda>w. Send w m) (List.map_filter ws (map snd (players g)))"
proof -
  have "concat (map (\<lambda>p. case ws p of None \<Rightarrow> []
                        | Some w \<Rightarrow> if True then [Send w m] else []) ps) =
        map (\<lambda>w. Send w m) (List.map_filter ws ps)" for ps :: "player list"
    by (induction ps) (auto split: option.splits)
  then show ?thesis unfolding send_each_def .
qed

subsection \<open>Rounding to the nearest double\<close>

lemma bitlen_numeral:
  "bitlen 1 = 1"
  "bitlen (numeral Num.One) = 1"
  "bitlen (numeral (Num.Bit0 n)) = bitlen (numeral n) + 1"
  "bitlen (numeral (Num.Bit1 n)) = bitlen (numeral n) + 1"
proof -
  show "bitlen 1 = 1"
    by (subst compute_bitlen) simp
  show "bitlen (numeral Num.One) = 1"
    by (subst compute_bitlen) simp
  show "bitlen (numeral (Num.Bit0 n)) = bitlen (numeral n) + 1"
    by (subst compute_bitlen) simp
  show "bitlen (numeral (Num.Bit1 n)) = bitlen (numeral n) + 1"
    by (subst compute_bitlen) simp
qed

lemmas float_defs =
  float_of_def float_round_def ulp_exp_def expo_def round_half_even_def bitlen_numeral
  remaining_time_def answer_score_def py_int_def QUESTION_TIME_def BASE_SCORE_def

lemma expo_bounds_ge1:
  assumes "1 \<le> y"
  shows "2 powi (expo y) \<le> y \<and> y < 2 powi (expo y + 1)"
proof -
  define n where "n = \<lfloor>y\<rfloor>"
  have n1: "1 \<le> n" using assms by (simp add: n_def)
  have n2: "of_int n \<le> y" by (simp add: n_def)
  have n3: "y < of_int n + 1" by (simp add: n_def)
  from n1 have pos: "0 < n" by simp
  from bitlen_bounds[OF pos] have b: "2 ^ nat (bitlen n - 1) \<le> n" "n < 2 ^ nat (bitlen n)"
    by auto
  from pos have k: "1 \<le> bitlen n" by (auto simp: bitlen_alt_def)
  have e: "expo y = bitlen n - 1" using assms by (simp add: expo_def n_def)
  have "2 powi (bitlen n - 1) = (2::real) ^ nat (bitlen n - 1)"
    using k by (simp add: power_int_def)
  also have "\<dots> \<le> of_int n" using b(1) by simp
  finally have lo: "2 powi (bitlen n - 1) \<le> y" using n2 by linarith
  have "n + 1 \<le> 2 ^ nat (bitlen n)" using b(2) by simp
  then have "real_of_int (n + 1) \<le> real_of_int (2 ^ nat (bitlen n))"
    by (simp only: of_int_le_iff)
  then have "real_of_int n + 1 \<le> 2 ^ nat (bitlen n)"
    by (simp only: of_int_add of_int_1 of_int_power of_int_numeral)
  then have "y < 2 ^ nat (bitlen n)" using n3 by linarith
  also have "(2::real) ^ nat (bitlen n) = 2 powi (bitlen n - 1 + 1)"
    using k by (simp add: power_int_def)
  finally show ?thesis using lo e by simp
qed

lemma expo_bounds_lt1:
  assumes "0 < y" "y < 1"
  shows "2 powi (expo y) \<le> y \<and> y < 2 powi (expo y + 1)"
proof -
  define z where "z = 1 / y"
  define m where "m = \<lceil>z\<rceil>"
  have z: "1 < z" using assms by (simp add: z_def)
  have m1: "z \<le> of_int m" by (simp add: m_def)
  have m2: "of_int m - 1 < z" unfolding m_def by linarith
  have m3: "2 \<le> m" using z unfolding m_def by linarith
  then have pos: "0 < m - 1" by simp
  define k where "k = bitlen (m - 1)"
  from bitlen_bounds[OF pos] have b: "2 ^ nat (k - 1) \<le> m - 1" "m - 1 < 2 ^ nat k"
    by (auto simp: k_def)
  from pos have k: "1 \<le> k" by (auto simp: bitlen_alt_def k_def)
  have e: "expo y = - k" using assms by (simp add: expo_def k_def m_def z_def)
  have "m \<le> 2 ^ nat k" using b(2) by simp
  then have "real_of_int m \<le> 2 ^ nat k" by simp
  then have zk: "z \<le> 2 ^ nat k" using m1 by linarith
  have "real_of_int (2 ^ nat (k - 1)) \<le> real_of_int (m - 1)"
    using b(1) by (simp only: of_int_le_iff)
  then have "(2::real) ^ nat (k - 1) \<le> of_int m - 1"
    by (simp only: of_int_diff of_int_1 of_int_power of_int_numeral)
  then have zk1: "2 ^ nat (k - 1) < z" using m2 by linarith
  have p1: "(2::real) powi (- k) = 1 / 2 ^ nat k"
    using k by (simp add: power_int_def field_simps)
  have p2: "(2::real) powi (- k + 1) = 1 / 2 ^ nat (k - 1)"
    using k by (auto simp add: power_int_def field_simps nat_diff_distrib)
  have "1 / 2 ^ nat k \<le> y"
    using zk assms(1) by (simp add: z_def field_simps)
  moreover have "y < 1 / 2 ^ nat (k - 1)"
    using zk1 assms(1) by (simp add: z_def field_simps)
  ultimately show ?thesis using e p1 p2 by simp
qed

lemma expo_bounds:
  "0 < y \<Longrightarrow> 2 powi (expo y) \<le> y \<and> y < 2 powi (expo y + 1)"
  using expo_bounds_ge1 expo_bounds_lt1 by (cases "1 \<le> y") auto

lemma expo_mono:
  assumes "0 < x" "x \<le> y"
  shows "expo x \<le> expo y"
proof (rule ccontr)
  assume "\<not> expo x \<le> expo y"
  then have "expo y + 1 \<le> expo x" by simp
  then have "(2::real) powi (expo y + 1) \<le> 2 powi (expo x)"
    by (intro power_int_increasing) auto
  with expo_bounds[of x] expo_bounds[of y] assms show False by linarith
qed

lemma round_half_even_of_int [simp]: "round_half_even (of_int n) = n"
  by (simp add: round_half_even_def)

lemma round_half_even_bounds:
  "\<lfloor>q\<rfloor> \<le> round_half_even q" "round_half_even q \<le> \<lfloor>q\<rfloor> + 1"
  by (auto simp: round_half_even_def Let_def)

lemma round_half_even_error: "\<bar>of_int (round_half_even q) - q\<bar> \<le> 1 / 2"
proof -
  have "of_int \<lfloor>q\<rfloor> \<le> q" "q < of_int \<lfloor>q\<rfloor> + 1" by linarith+
  then show ?thesis
    by (auto simp: round_half_even_def Let_def abs_le_iff)
qed

lemma round_half_even_mono:
  assumes "q1 \<le> q2"
  shows "round_half_even q1 \<le> round_half_even q2"
proof (cases "\<lfloor>q1\<rfloor> = \<lfloor>q2\<rfloor>")
  case True
  with assms show ?thesis
    by (auto simp: round_half_even_def Let_def)
next
  case False
  with assms have "\<lfloor>q1\<rfloor> + 1 \<le> \<lfloor>q2\<rfloor>"
    using floor_mono[OF assms] by linarith
  with round_half_even_bounds(2)[of q1] round_half_even_bounds(1)[of q2]
  show ?thesis by linarith
qed

lemma float_round_nonneg: "0 \<le> x \<Longrightarrow> 0 \<le> float_round x"
proof -
  assume x: "0 \<le> x"
  have "round_half_even 0 \<le> round_half_even (x / 2 powi ulp_exp x)"
    by (rule round_half_even_mono) (use x in simp)
  then have "0 \<le> round_half_even (x / 2 powi ulp_exp x)"
    using round_half_even_of_int[of 0] by simp
  then show ?thesis by (simp add: float_round_def)
qed

lemma float_round_nonpos: "x \<le> 0 \<Longrightarrow> float_round x \<le> 0"
proof -
  assume x: "x \<le> 0"
  have "round_half_even (x / 2 powi ulp_exp x) \<le> round_half_even 0"
    by (rule round_half_even_mono) (use x in \<open>simp add: divide_nonpos_pos\<close>)
  then have "round_half_even (x / 2 powi ulp_exp x) \<le> 0"
    using round_half_even_of_int[of 0] by simp
  then show ?thesis by (simp add: float_round_def mult_nonpos_nonneg)
qed

lemma float_round_mono_pos:
  assumes "0 < x" "x \<le> y"
  shows "float_round x \<le> float_round y"
proof -
  from assms have y: "0 < y" by simp
  have ex: "ulp_exp x \<le> ulp_exp y"
    using expo_mono[OF assms] assms by (simp add: ulp_exp_def)
  show ?thesis
  proof (cases "ulp_exp x = ulp_exp y")
    case True
    have "x / 2 powi ulp_exp y \<le> y / 2 powi ulp_exp y"
      using assms by (simp add: divide_right_mono)
    from round_half_even_mono[OF this] True assms y show ?thesis
      by (simp add: float_round_def)
  next
    case False
    with ex have lt: "ulp_exp x + 1 \<le> ulp_exp y" by simp
    then have ey: "ulp_exp y = expo y - 52" "- 1022 \<le> expo y"
      using y by (auto simp: ulp_exp_def max_def split: if_splits)
    have "expo x \<le> ulp_exp x + 52" using assms by (simp add: ulp_exp_def)
    then have "(2::real) powi (expo x + 1) \<le> 2 powi (ulp_exp x + 53)"
      by (intro power_int_increasing) auto
    with expo_bounds[OF assms(1)] have "x \<le> 2 powi (ulp_exp x + 53)" by linarith
    then have "x / 2 powi ulp_exp x \<le> 2 powi (ulp_exp x + 53) / 2 powi ulp_exp x"
      by (simp add: divide_right_mono)
    also have "\<dots> = 2 ^ 53" by (simp add: power_int_add)
    also have "\<dots> = real_of_int (2 ^ 53)" by simp
    finally have "round_half_even (x / 2 powi ulp_exp x) \<le> round_half_even (of_int (2 ^ 53))"
      by (rule round_half_even_mono)
    then have "real_of_int (round_half_even (x / 2 powi ulp_exp x)) \<le> 2 ^ 53"
      unfolding round_half_even_of_int by (metis of_int_le_iff of_int_numeral of_int_power)
    then have "float_round x \<le> 2 ^ 53 * 2 powi ulp_exp x"
      using assms by (simp add: float_round_def mult_right_mono)
    also have "\<dots> = 2 powi (ulp_exp x + 53)" by (simp add: power_int_add)
    also have "\<dots> \<le> 2 powi (ulp_exp y + 52)"
      using lt by (intro power_int_increasing) auto
    finally have upper: "float_round x \<le> 2 powi (ulp_exp y + 52)" .
    have "2 powi (ulp_exp y + 52) \<le> y" using expo_bounds[OF y] ey by simp
    then have "2 powi (ulp_exp y + 52) / 2 powi ulp_exp y \<le> y / 2 powi ulp_exp y"
      by (simp add: divide_right_mono)
    moreover have "(2::real) powi (ulp_exp y + 52) / 2 powi ulp_exp y = real_of_int (2 ^ 52)"
      by (simp add: power_int_add)
    ultimately have "round_half_even (of_int (2 ^ 52)) \<le> round_half_even (y / 2 powi ulp_exp y)"
      by (intro round_half_even_mono) simp
    then have "2 ^ 52 \<le> real_of_int (round_half_even (y / 2 powi ulp_exp y))"
      unfolding round_half_even_of_int by (metis of_int_le_iff of_int_numeral of_int_power)
    then have "2 ^ 52 * 2 powi ulp_exp y \<le> float_round y"
      using y by (simp add: float_round_def mult_right_mono)
    moreover have "(2::real) ^ 52 * 2 powi ulp_exp y = 2 powi (ulp_exp y + 52)"
      by (simp add: power_int_add)
    ultimately show ?thesis using upper by linarith
  qed
qed

lemma float_round_mono_nonneg:
  assumes "0 \<le> x" "x \<le> y"
  shows "float_round x \<le> float_round y"
proof (cases "x = 0")
  case True
  with assms float_round_nonneg[of y] show ?thesis by (simp add: float_round_def)
next
  case False
  with assms float_round_mono_pos[of x y] show ?thesis by simp
qed

lemma float_round_error:
  assumes "\<bar>x\<bar> < 2 powi k" "- 1021 \<le> k"
  shows "\<bar>float_round x - x\<bar> \<le> 2 powi (k - 54)"
proof (cases "x = 0")
  case True
  then show ?thesis by (simp add: float_round_def)
next
  case False
  then have ax: "0 < \<bar>x\<bar>" by simp
  have "expo \<bar>x\<bar> < k"
  proof (rule ccontr)
    assume "\<not> expo \<bar>x\<bar> < k"
    then have "(2::real) powi k \<le> 2 powi (expo \<bar>x\<bar>)"
      by (intro power_int_increasing) auto
    with expo_bounds[OF ax] assms(1) show False by linarith
  qed
  with assms(2) have u: "ulp_exp x \<le> k - 53" by (simp add: ulp_exp_def)
  let ?u = "(2::real) powi ulp_exp x"
  have upos: "0 < ?u" by simp
  have "(of_int (round_half_even (x / ?u)) - x / ?u) * ?u
          = of_int (round_half_even (x / ?u)) * ?u - x"
    by (simp add: left_diff_distrib)
  then have "\<bar>float_round x - x\<bar> = \<bar>(of_int (round_half_even (x / ?u)) - x / ?u) * ?u\<bar>"
    using False by (simp only: float_round_def if_False)
  also have "\<dots> = \<bar>of_int (round_half_even (x / ?u)) - x / ?u\<bar> * ?u"
    using upos by (simp only: abs_mult abs_of_pos)
  also have "\<dots> \<le> 1 / 2 * ?u"
    by (intro mult_right_mono round_half_even_error) simp
  also have "\<dots> = 2 powi (ulp_exp x - 1)" by (simp add: power_int_diff)
  also have "\<dots> \<le> 2 powi (k - 54)"
    using u by (intro power_int_increasing) auto
  finally show ?thesis .
qed

lemma float_round_15: "float_round 15 = 15"
  by (simp add: float_defs Let_def)

lemma float_round_1: "float_round 1 = 1"
  by (simp add: float_defs Let_def)

lemma float_round_1000: "float_round 1000 = 1000"
  by (simp add: float_defs Let_def)

lemma float_of_Finite_iff:
  "float_of x = Finite r \<longleftrightarrow> r = float_round x \<and> - (2 ^ 1024) < r \<and> r < 2 ^ 1024"
  by (auto simp: float_of_def Let_def)

lemma float_of_nonneg_cases:
  assumes "0 \<le> x"
  shows "float_of x = PosInf \<or> (\<exists>r. float_of x = Finite r \<and> 0 \<le> r \<and> r = float_round x)"
  using float_round_nonneg[OF assms] by (auto simp: float_of_def Let_def)

lemma float_of_mono_nonneg:
  assumes "0 \<le> a" "a \<le> b" "float_of b = Finite vb"
  shows "\<exists>va. float_of a = Finite va \<and> 0 \<le> va \<and> va \<le> vb"
proof -
  from assms(3) have vb: "vb = float_round b" "vb < 2 ^ 1024"
    by (auto simp: float_of_Finite_iff)
  from float_round_mono_nonneg[OF assms(1,2)] float_round_nonneg[OF assms(1)] vb
  show ?thesis by (auto simp: float_of_Finite_iff)
qed

lemmas scenario_defs =
  create_game_def next_question_def send_leaderboard_def send_each_def py_index_def
  QUESTIONS_def Let_def

lemmas handler_defs =
  run_def player_ws_connect_def broadcast_players_def player_ws_receive_def data_get_def
  color_option_get_def COLOR_OPTION_MAP_def OPTION_COLOR_MAP_def count_and_score_def
  send_answer_stats_def role_of_def
  player_ws_disconnect_def lock_question_def notify_question_end_def

subsection \<open>Advancing through the question bank\<close>

lemma advances_index:
  "gs pin = Some g \<Longrightarrow>
   \<exists>g'. fst (advances gs pin nows) pin = Some g'
      \<and> question_index g' = question_index g + int (length nows)"
proof (induction nows arbitrary: gs g)
  case Nil
  then show ?case by simp
next
  case (Cons now nows)
  obtain gs1 evs r where nq: "next_question gs pin now = (gs1, evs, r)"
    by (cases "next_question gs pin now") auto
  with Cons.prems obtain g1
    where g1: "gs1 pin = Some g1" "question_index g1 = question_index g + 1"
    by (auto simp: next_question_def Let_def send_leaderboard_def split: if_splits sum.splits)
  from Cons.IH[of gs1 g1] g1 nq show ?case
    by (auto split: prod.splits)
qed

lemma advances_results:
  "gs pin = Some g \<Longrightarrow> - 1 \<le> question_index g \<Longrightarrow>
   snd (advances gs pin nows) =
     map (\<lambda>k. Inr [(''status'',
                     JStr (if question_index g + 1 + int k < int (length QUESTIONS)
                           then ''sent'' else ''finished''))])
         [0..<length nows]"
proof (induction nows arbitrary: gs g)
  case Nil
  then show ?case by simp
next
  case (Cons now nows)
  obtain gs1 evs r where nq: "next_question gs pin now = (gs1, evs, r)"
    by (cases "next_question gs pin now") auto
  with Cons.prems obtain g1
    where g1: "gs1 pin = Some g1" "question_index g1 = question_index g + 1"
      and r: "r = Inr [(''status'',
                       JStr (if question_index g + 1 < int (length QUESTIONS)
                             then ''sent'' else ''finished''))]"
    by (auto simp: next_question_def Let_def send_leaderboard_def py_index_def
             split: if_splits sum.splits)
  from g1 Cons.prems have "- 1 \<le> question_index g1" by simp
  from Cons.IH[of gs1 g1, OF g1(1) this]
  have IH: "snd (advances gs1 pin nows) =
     map (\<lambda>k. Inr [(''status'',
                     JStr (if question_index g + 1 + int (Suc k) < int (length QUESTIONS)
                           then ''sent'' else ''finished''))])
         [0..<length nows]"
    by (simp add: g1(2) add.assoc)
  have "snd (advances gs pin (now # nows)) = r # snd (advances gs1 pin nows)"
    using nq by (simp split: prod.splits)
  also have "\<dots> = map (\<lambda>k. Inr [(''status'',
                     JStr (if question_index g + 1 + int k < int (length QUESTIONS)
                           then ''sent'' else ''finished''))])
         [0..<length (now # nows)]"
    unfolding IH r length_Cons map_upt_Suc by simp
  finally show ?case .
qed

text \<open>
  Claim C1, as the code has it. On a freshly created room, every \<^verbatim>\<open>next_question\<close> call
  adds exactly 1 to \<^verbatim>\<open>question_index\<close>, also after the index has reached the length of
  the question bank: after \<open>n\<close> calls the index is \<open>n - 1\<close>. Call number \<open>k\<close> (counted
  from 0) returns status "sent" while \<open>k\<close> is below the bank length and "finished" from
  then on.
\<close>

theorem advances_fresh_room:
  "map_option question_index (fst (advances (fst (create_game gs pin)) pin nows) pin)
     = Some (int (length nows) - 1)
   \<and> snd (advances (fst (create_game gs pin)) pin nows)
     = map (\<lambda>k. Inr [(''status'',
                       JStr (if k < length QUESTIONS then ''sent'' else ''finished''))])
           [0..<length nows]"
proof -
  let ?g0 = "\<lparr>question_index = - 1, started = False, locked = True,
              question_start = None, players = [], answered = {},
              answers_count = []\<rparr>"
  have g0: "fst (create_game gs pin) pin = Some ?g0"
    by (simp add: create_game_def)
  from advances_index[of "fst (create_game gs pin)" pin ?g0 nows, OF g0]
  have "map_option question_index (fst (advances (fst (create_game gs pin)) pin nows) pin)
          = Some (int (length nows) - 1)"
    by auto
  moreover
  from advances_results[of "fst (create_game gs pin)" pin ?g0 nows, OF g0]
  have "snd (advances (fst (create_game gs pin)) pin nows)
          = map (\<lambda>k. Inr [(''status'',
                            JStr (if k < length QUESTIONS then ''sent'' else ''finished''))])
                [0..<length nows]"
    by simp
  ultimately show ?thesis by simp
qed

theorem advances_fresh_room_witness:
  "map_option question_index
     (fst (advances (fst (create_game Map.empty ''ABC123'')) ''ABC123'' [0, 4, 9]) ''ABC123'')
     = Some 2
   \<and> snd (advances (fst (create_game Map.empty ''ABC123'')) ''ABC123'' [0, 4, 9])
     = [Inr [(''status'', JStr ''sent'')], Inr [(''status'', JStr ''sent'')],
        Inr [(''status'', JStr ''finished'')]]"
  using advances_fresh_room [of Map.empty "''ABC123''" "[0, 4, 9]"]
  by (simp add: QUESTIONS_def upt_rec)

text \<open>
  Against claim C1 as stated: three calls bring the index of a fresh room to the bank
  length, and the fourth call moves it on to the bank length plus one instead of leaving
  it fixed (both calls return "finished").
\<close>

theorem advances_counterexample:
  "map_option question_index
     (fst (advances (fst (create_game Map.empty ''ABC123'')) ''ABC123'' [0, 1, 2]) ''ABC123'')
     = Some (int (length QUESTIONS))
   \<and> map_option question_index
     (fst (advances (fst (create_game Map.empty ''ABC123'')) ''ABC123'' [0, 1, 2, 3]) ''ABC123'')
     = Some (int (length QUESTIONS) + 1)
   \<and> snd (advances (fst (create_game Map.empty ''ABC123'')) ''ABC123'' [0, 1, 2, 3])
     = [Inr [(''status'', JStr ''sent'')], Inr [(''status'', JStr ''sent'')],
        Inr [(''status'', JStr ''finished'')], Inr [(''status'', JStr ''finished'')]]"
  by (simp add: scenario_defs QUESTION_TIME_def)

subsection \<open>The scorer\<close>

lemma remaining_time_nonneg:
  "remaining_time x = Finite r \<Longrightarrow> 0 \<le> r"
  by (auto simp: remaining_time_def split: pyfloat.splits)

lemma remaining_time_mono:
  assumes "e1 \<le> e2" "remaining_time (Finite e1) = Finite r1"
  shows "\<exists>r2. remaining_time (Finite e2) = Finite r2 \<and> 0 \<le> r2 \<and> r2 \<le> r1"
proof (cases "real_of_int QUESTION_TIME - e2 \<le> 0")
  case True
  from float_round_nonpos[OF True] have "float_round (real_of_int QUESTION_TIME - e2) \<le> 0" .
  then have "remaining_time (Finite e2) = Finite 0"
    by (auto simp: remaining_time_def float_of_def Let_def max_def)
  with remaining_time_nonneg[OF assms(2)] show ?thesis by simp
next
  case False
  then have pos: "0 \<le> real_of_int QUESTION_TIME - e2"
    and le: "real_of_int QUESTION_TIME - e2 \<le> real_of_int QUESTION_TIME - e1"
    using assms(1) by simp_all
  from pos le have "0 \<le> real_of_int QUESTION_TIME - e1" by linarith
  from float_of_nonneg_cases[OF this] assms(2)
  obtain a1 where a1: "float_of (real_of_int QUESTION_TIME - e1) = Finite a1" "0 \<le> a1" "r1 = a1"
    by (auto simp: remaining_time_def max_def)
  from float_of_mono_nonneg[OF pos le a1(1)] a1 show ?thesis
    by (auto simp: remaining_time_def max_def)
qed

lemma answer_score_nonneg: "answer_score x = Inr s \<Longrightarrow> 0 \<le> s"
proof -
  assume a: "answer_score x = Inr s"
  then obtain r q v where h: "remaining_time x = Finite r"
      "float_of (r / real_of_int QUESTION_TIME) = Finite q"
      "float_of (real_of_int BASE_SCORE * q) = Finite v" "s = py_int v"
    by (auto simp: answer_score_def split: pyfloat.splits)
  have r: "0 \<le> r" using h(1) by (rule remaining_time_nonneg)
  then have "0 \<le> r / real_of_int QUESTION_TIME" by (simp add: QUESTION_TIME_def)
  from float_round_nonneg[OF this] h(2) have q: "0 \<le> q" by (simp add: float_of_Finite_iff)
  then have "0 \<le> real_of_int BASE_SCORE * q" by (simp add: BASE_SCORE_def)
  from float_round_nonneg[OF this] h(3) have "0 \<le> v" by (simp add: float_of_Finite_iff)
  then show ?thesis using h(4) by (simp add: py_int_def)
qed

lemma answer_score_mono:
  assumes "e1 \<le> e2" "answer_score (Finite e1) = Inr s1"
  shows "\<exists>s2. answer_score (Finite e2) = Inr s2 \<and> s2 \<le> s1"
proof -
  from assms(2) obtain r1 q1 v1 where h: "remaining_time (Finite e1) = Finite r1"
      "float_of (r1 / real_of_int QUESTION_TIME) = Finite q1"
      "float_of (real_of_int BASE_SCORE * q1) = Finite v1" "s1 = py_int v1"
    by (auto simp: answer_score_def split: pyfloat.splits)
  from remaining_time_mono[OF assms(1) h(1)] obtain r2
    where r2: "remaining_time (Finite e2) = Finite r2" "0 \<le> r2" "r2 \<le> r1" by blast
  have "0 \<le> r2 / real_of_int QUESTION_TIME"
       "r2 / real_of_int QUESTION_TIME \<le> r1 / real_of_int QUESTION_TIME"
    using r2 by (simp_all add: QUESTION_TIME_def)
  from float_of_mono_nonneg[OF this h(2)] obtain q2
    where q2: "float_of (r2 / real_of_int QUESTION_TIME) = Finite q2" "0 \<le> q2" "q2 \<le> q1"
    by blast
  have "0 \<le> real_of_int BASE_SCORE * q2"
       "real_of_int BASE_SCORE * q2 \<le> real_of_int BASE_SCORE * q1"
    using q2 by (simp_all add: BASE_SCORE_def)
  from float_of_mono_nonneg[OF this h(3)] obtain v2
    where v2: "float_of (real_of_int BASE_SCORE * q2) = Finite v2" "0 \<le> v2" "v2 \<le> v1"
    by blast
  have "answer_score (Finite e2) = Inr (py_int v2)"
    using r2(1) q2(1) v2(1) by (simp add: answer_score_def)
  moreover have "py_int v2 \<le> py_int v1"
    using v2 by (simp add: py_int_def floor_mono)
  ultimately show ?thesis using h(4) by simp
qed

lemma answer_score_late:
  assumes "real_of_int QUESTION_TIME \<le> e"
  shows "answer_score (Finite e) = Inr 0"
proof -
  from assms have "real_of_int QUESTION_TIME - e \<le> 0" by simp
  from float_round_nonpos[OF this]
  have "remaining_time (Finite e) = Finite 0"
    by (auto simp: remaining_time_def float_of_def Let_def max_def)
  then show ?thesis
    by (simp add: answer_score_def float_of_def float_round_def py_int_def)
qed

lemma answer_score_in_window:
  assumes "0 \<le> e" "e < real_of_int QUESTION_TIME"
  shows "\<exists>v. answer_score (Finite e) = Inr \<lfloor>v\<rfloor>
           \<and> \<bar>v - real_of_int BASE_SCORE * (real_of_int QUESTION_TIME - e)
                     / real_of_int QUESTION_TIME\<bar> < 1"
proof -
  define x where "x = 15 - e"
  have x: "0 < x" "x \<le> 15" using assms by (simp_all add: x_def QUESTION_TIME_def)
  define r where "r = float_round x"
  have r0: "0 \<le> r" unfolding r_def using x by (intro float_round_nonneg) simp
  have r15: "r \<le> 15"
    unfolding r_def using float_round_mono_pos[OF x] by (simp add: float_round_15)
  have re: "\<bar>r - x\<bar> \<le> 2 powi (4 - 54)"
    unfolding r_def using x by (intro float_round_error) auto
  have fr: "float_of x = Finite r"
    using r0 r15 by (simp add: float_of_Finite_iff r_def)
  define q where "q = float_round (r / 15)"
  have q0: "0 \<le> q" unfolding q_def using r0 by (intro float_round_nonneg) simp
  have q1: "q \<le> 1"
    unfolding q_def using float_round_mono_nonneg[of "r / 15" 1] r0 r15
    by (simp add: float_round_1)
  have qe: "\<bar>q - r / 15\<bar> \<le> 2 powi (1 - 54)"
    unfolding q_def using r0 r15 by (intro float_round_error) auto
  have fq: "float_of (r / 15) = Finite q"
    using q0 q1 by (simp add: float_of_Finite_iff q_def)
  define v where "v = float_round (1000 * q)"
  have v0: "0 \<le> v" unfolding v_def using q0 by (intro float_round_nonneg) simp
  have v1: "v \<le> 1000"
    unfolding v_def using float_round_mono_nonneg[of "1000 * q" 1000] q0 q1
    by (simp add: float_round_1000)
  have ve: "\<bar>v - 1000 * q\<bar> \<le> 2 powi (10 - 54)"
    unfolding v_def using q0 q1 by (intro float_round_error) auto
  have fv: "float_of (1000 * q) = Finite v"
    using v0 v1 by (simp add: float_of_Finite_iff v_def)
  have "remaining_time (Finite e) = Finite r"
    using fr r0 by (simp add: remaining_time_def x_def QUESTION_TIME_def max_def)
  then have score: "answer_score (Finite e) = Inr \<lfloor>v\<rfloor>"
    using fq fv v0 by (simp add: answer_score_def QUESTION_TIME_def BASE_SCORE_def py_int_def)
  have "(2::real) powi (4 - 54) \<le> 1 / 1000000" "(2::real) powi (1 - 54) \<le> 1 / 1000000"
       "(2::real) powi (10 - 54) \<le> 1 / 1000000"
    by simp_all
  with re qe ve have "\<bar>r - x\<bar> \<le> 1 / 1000000" "\<bar>q - r / 15\<bar> \<le> 1 / 1000000"
       "\<bar>v - 1000 * q\<bar> \<le> 1 / 1000000"
    by linarith+
  then have "\<bar>v - 1000 * x / 15\<bar> < 1"
    by linarith
  then show ?thesis
    using score by (auto simp: x_def QUESTION_TIME_def BASE_SCORE_def)
qed

lemma floor_close: "\<bar>v - w\<bar> < 1 \<Longrightarrow> \<bar>\<lfloor>v\<rfloor> - \<lfloor>w\<rfloor>\<bar> \<le> 1" for v w :: real
  by (simp add: abs_le_iff abs_less_iff) linarith

lemma answer_score_near_floor:
  assumes "0 \<le> e"
  shows "\<exists>s. answer_score (Finite e) = Inr s
           \<and> \<bar>s - \<lfloor>real_of_int BASE_SCORE * max 0 (real_of_int QUESTION_TIME - e)
                      / real_of_int QUESTION_TIME\<rfloor>\<bar> \<le> 1"
proof (cases "e < real_of_int QUESTION_TIME")
  case True
  from answer_score_in_window[OF assms True] obtain v where
    v: "answer_score (Finite e) = Inr \<lfloor>v\<rfloor>"
       "\<bar>v - real_of_int BASE_SCORE * (real_of_int QUESTION_TIME - e)
                     / real_of_int QUESTION_TIME\<bar> < 1" by blast
  from True have "max 0 (real_of_int QUESTION_TIME - e) = real_of_int QUESTION_TIME - e"
    by simp
  with floor_close[OF v(2)] v(1) show ?thesis by simp
next
  case False
  then have "answer_score (Finite e) = Inr 0" by (intro answer_score_late) simp
  moreover from False have "max 0 (real_of_int QUESTION_TIME - e) = 0" by simp
  ultimately show ?thesis by simp
qed

text \<open>With a clock that does not run backwards the scorer never raises.\<close>

lemma answer_score_clock:
  assumes "t0 \<le> now"
  shows "\<exists>s. answer_score (float_of (now - t0)) = Inr s \<and> 0 \<le> s"
proof -
  from assms have "0 \<le> now - t0" by simp
  from float_of_nonneg_cases[OF this] show ?thesis
  proof
    assume "float_of (now - t0) = PosInf"
    then show ?thesis
      by (simp add: answer_score_def remaining_time_def float_of_def float_round_def py_int_def)
  next
    assume "\<exists>r. float_of (now - t0) = Finite r \<and> 0 \<le> r \<and> r = float_round (now - t0)"
    then obtain r where r: "float_of (now - t0) = Finite r" "0 \<le> r" by blast
    from answer_score_near_floor[OF r(2)] obtain s where "answer_score (Finite r) = Inr s"
      by blast
    with r(1) answer_score_nonneg[of "Finite r" s] show ?thesis by simp
  qed
qed

text \<open>
  Claim C3, as the code has it. The points are
  \<^verbatim>\<open>int(BASE_SCORE * (max(0, QUESTION_TIME - elapsed) / QUESTION_TIME))\<close> computed in
  double precision, each operation rounded to the nearest double. At elapsed 0 they are
  exactly \<open>BASE_SCORE\<close> and at elapsed \<open>QUESTION_TIME\<close> exactly 0. For every elapsed time
  from 0 on they differ from
  \<open>floor (BASE_SCORE * max 0 (QUESTION_TIME - elapsed) / QUESTION_TIME)\<close> by at most one
  point. A later answer never gets more points than an earlier one.
\<close>

theorem answer_score_double:
  "answer_score (Finite 0) = Inr BASE_SCORE
   \<and> answer_score (Finite (real_of_int QUESTION_TIME)) = Inr 0
   \<and> (0 \<le> elapsed \<longrightarrow>
        (\<exists>s. answer_score (Finite elapsed) = Inr s
            \<and> \<bar>s - \<lfloor>real_of_int BASE_SCORE * max 0 (real_of_int QUESTION_TIME - elapsed)
                       / real_of_int QUESTION_TIME\<rfloor>\<bar> \<le> 1))
   \<and> (e1 \<le> e2 \<and> answer_score (Finite e1) = Inr s1 \<longrightarrow>
        (\<exists>s2. answer_score (Finite e2) = Inr s2 \<and> s2 \<le> s1))"
proof (intro conjI impI)
  show "answer_score (Finite 0) = Inr BASE_SCORE"
    by (simp add: float_defs Let_def)
  show "answer_score (Finite (real_of_int QUESTION_TIME)) = Inr 0"
    by (rule answer_score_late) simp
  show "\<exists>s. answer_score (Finite elapsed) = Inr s
            \<and> \<bar>s - \<lfloor>real_of_int BASE_SCORE * max 0 (real_of_int QUESTION_TIME - elapsed)
                       / real_of_int QUESTION_TIME\<rfloor>\<bar> \<le> 1" if "0 \<le> elapsed"
    using that by (rule answer_score_near_floor)
  show "\<exists>s2. answer_score (Finite e2) = Inr s2 \<and> s2 \<le> s1"
    if "e1 \<le> e2 \<and> answer_score (Finite e1) = Inr s1"
    using that answer_score_mono by blast
qed

theorem answer_score_double_witness:
  "answer_score (Finite 0) = Inr 1000 \<and> answer_score (Finite 15) = Inr 0
   \<and> (0 \<le> (3::real) \<and> answer_score (Finite 3) = Inr 800
       \<and> \<lfloor>real_of_int BASE_SCORE * max 0 (real_of_int QUESTION_TIME - 3)
            / real_of_int QUESTION_TIME\<rfloor> = 800)
   \<and> ((3::real) \<le> 7.5 \<and> answer_score (Finite 7.5) = Inr 500 \<and> (500::int) \<le> 800)"
  using answer_score_double [of 3 3 "7.5" 800]
  by (simp add: float_defs Let_def)

text \<open>
  Against claim C3 as stated: at the double nearest to 0.135 the code gives 991 points
  where the floor of the exact quotient is 990, and at the double nearest to 0.99 it
  gives 933 where the floor is 934. The first is the score of a player who answers
  question 0, opened at clock reading 0, at that clock reading.
\<close>

theorem answer_score_counterexample:
  "answer_score (Finite (607985949695017 / 4503599627370496)) = Inr 991
   \<and> \<lfloor>real_of_int BASE_SCORE
        * max 0 (real_of_int QUESTION_TIME - 607985949695017 / 4503599627370496)
        / real_of_int QUESTION_TIME\<rfloor> = 990
   \<and> answer_score (Finite (4458563631096791 / 4503599627370496)) = Inr 933
   \<and> \<lfloor>real_of_int BASE_SCORE
        * max 0 (real_of_int QUESTION_TIME - 4458563631096791 / 4503599627370496)
        / real_of_int QUESTION_TIME\<rfloor> = 934
   \<and> map_option (map (score \<circ> snd) \<circ> players)
        (run [CreateGame ''ABC123'', Connect 7 ''ABC123'' ''p1'' ''Ann'',
              NextQuestion ''ABC123'' 0,
              Receive ''ABC123'' ''p1'' blue_answer (607985949695017 / 4503599627370496)]
           ''ABC123'')
     = Some [991]"
  by (simp add: blue_answer_def scenario_defs handler_defs float_defs)

subsection \<open>The deadline callback\<close>

text \<open>
  Claim C4. When the timer of \<^verbatim>\<open>lock_question pin q_index\<close> fires and the room is gone
  from the registry, or its \<^verbatim>\<open>question_index\<close> is not the \<open>q_index\<close> the task was
  created with, the callback leaves the registry as it is and sends nothing.
\<close>

theorem lock_question_stale:
  "gs pin = None \<or> (\<exists>g. gs pin = Some g \<and> question_index g \<noteq> q_index) \<Longrightarrow>
   lock_question gs pin q_index = (gs, [], Inr ())"
  by (auto simp: lock_question_def)

theorem lock_question_stale_witness:
  "(\<exists>g. fst (advances (fst (create_game Map.empty ''ABC123'')) ''ABC123'' [0, 5]) ''ABC123''
          = Some g \<and> question_index g \<noteq> 0)
   \<and> lock_question (fst (advances (fst (create_game Map.empty ''ABC123'')) ''ABC123'' [0, 5]))
        ''ABC123'' 0
     = (fst (advances (fst (create_game Map.empty ''ABC123'')) ''ABC123'' [0, 5]), [], Inr ())
   \<and> lock_question Map.empty ''ZZZZZZ'' 0 = (Map.empty, [], Inr ())"
proof -
  have h: "\<exists>g. fst (advances (fst (create_game Map.empty ''ABC123'')) ''ABC123'' [0, 5])
                  ''ABC123'' = Some g \<and> question_index g \<noteq> 0"
    by (simp add: scenario_defs QUESTION_TIME_def)
  have e: "(Map.empty :: games) ''ZZZZZZ'' = None"
    by simp
  show ?thesis
    using h e
      lock_question_stale
        [of "fst (advances (fst (create_game Map.empty ''ABC123'')) ''ABC123'' [0, 5])"
            "''ABC123''" 0]
      lock_question_stale [of Map.empty "''ZZZZZZ''" 0]
    by blast
qed

subsection \<open>Advancing past the last question\<close>

text \<open>
  Claim C10. When the incremented index is at or beyond the bank length,
  \<^verbatim>\<open>next_question\<close> changes only \<^verbatim>\<open>started\<close> and \<^verbatim>\<open>question_index\<close> of the room:
  \<^verbatim>\<open>locked\<close>, \<^verbatim>\<open>answered\<close>, \<^verbatim>\<open>answers_count\<close>, \<^verbatim>\<open>question_start\<close> and the whole
  \<^verbatim>\<open>players\<close> dictionary stay as they were, every other room is untouched, and each
  connected participant is sent the leaderboard with \<^verbatim>\<open>finished\<close> set; the call
  returns status "finished".
\<close>

theorem next_question_finished_frame:
  assumes "gs pin = Some g" and "int (length QUESTIONS) \<le> question_index g + 1"
  shows "\<exists>g'. next_question gs pin now =
             (gs(pin \<mapsto> g'),
              map (\<lambda>w. Send w (Leaderboard True
                     (map (\<lambda>p. (name p, score p))
                        (sort_key (\<lambda>p. - score p)
                           (filter (\<lambda>p. role p = ''player'') (map snd (players g)))))))
                  (List.map_filter ws (map snd (players g))),
              Inr [(''status'', JStr ''finished'')])
         \<and> started g' = True \<and> question_index g' = question_index g + 1
         \<and> locked g' = locked g \<and> answered g' = answered g
         \<and> answers_count g' = answers_count g \<and> question_start g' = question_start g
         \<and> players g' = players g"
  using assms
  by (intro exI[of _ "g\<lparr>started := True, question_index := question_index g + 1\<rparr>"])
     (simp add: next_question_def send_leaderboard_def Let_def send_each_all)

theorem next_question_finished_frame_witness:
  "[''ABC123'' \<mapsto> room_ex] ''ABC123'' = Some room_ex
   \<and> int (length QUESTIONS) \<le> question_index room_ex + 1
   \<and> (\<exists>g'. next_question [''ABC123'' \<mapsto> room_ex] ''ABC123'' 30 =
             ([''ABC123'' \<mapsto> room_ex](''ABC123'' \<mapsto> g'),
              [Send 1 (Leaderboard True [(''Bob'', 900), (''Ann'', 200), (''Cy'', 200)]),
               Send 2 (Leaderboard True [(''Bob'', 900), (''Ann'', 200), (''Cy'', 200)]),
               Send 4 (Leaderboard True [(''Bob'', 900), (''Ann'', 200), (''Cy'', 200)])],
              Inr [(''status'', JStr ''finished'')])
         \<and> started g' = True \<and> question_index g' = 2
         \<and> locked g' = False \<and> answered g' = {}
         \<and> answers_count g' = [(''A'', 0), (''B'', 2), (''C'', 1), (''D'', 0)]
         \<and> question_start g' = Some 5
         \<and> players g' = players room_ex)"
  using next_question_finished_frame [of "[''ABC123'' \<mapsto> room_ex]" "''ABC123''" room_ex 30]
  by (simp add: room_ex_def QUESTIONS_def List.map_filter_def)

subsection \<open>Unknown room codes\<close>

text \<open>
  Claim C7, as the code has it. \<^verbatim>\<open>check_pin\<close> returns an object whose \<^verbatim>\<open>valid\<close> flag
  is true exactly when the code is in the registry. When the code is present the object
  also has a \<^verbatim>\<open>started\<close> flag equal to the room's \<^verbatim>\<open>started\<close> field; when it is
  absent the object has no \<^verbatim>\<open>started\<close> flag.
\<close>

theorem check_pin_flags:
  "map_of (check_pin gs pin) ''valid'' = Some (JBool (pin \<in> dom gs))
   \<and> (\<forall>g. gs pin = Some g \<longrightarrow>
          map_of (check_pin gs pin) ''started'' = Some (JBool (started g)))
   \<and> (gs pin = None \<longrightarrow> map_of (check_pin gs pin) ''started'' = None)"
  by (auto simp: check_pin_def split: option.splits)

theorem check_pin_flags_witness:
  "map_of (check_pin (fst (create_game Map.empty ''ABC123'')) ''ABC123'') ''valid''
     = Some (JBool True)
   \<and> map_of (check_pin (fst (create_game Map.empty ''ABC123'')) ''ABC123'') ''started''
     = Some (JBool False)
   \<and> map_of (check_pin (fst (next_question (fst (create_game Map.empty ''ABC123''))
                               ''ABC123'' 0)) ''ABC123'') ''started''
     = Some (JBool True)
   \<and> map_of (check_pin (fst (create_game Map.empty ''ABC123'')) ''ZZZZZZ'') ''valid''
     = Some (JBool False)
   \<and> map_of (check_pin (fst (create_game Map.empty ''ABC123'')) ''ZZZZZZ'') ''started''
     = None"
  using check_pin_flags [of "fst (create_game Map.empty ''ABC123'')" "''ABC123''"]
    check_pin_flags [of "fst (next_question (fst (create_game Map.empty ''ABC123''))
                              ''ABC123'' 0)" "''ABC123''"]
    check_pin_flags [of "fst (create_game Map.empty ''ABC123'')" "''ZZZZZZ''"]
  by (simp add: scenario_defs QUESTION_TIME_def)

text \<open>
  Against claim C7 as stated: for a code that was never created the object is
  \<^verbatim>\<open>{"valid": false}\<close> and carries no \<^verbatim>\<open>started\<close> flag.
\<close>

theorem check_pin_counterexample:
  "check_pin Map.empty ''ZZZZZZ'' = [(''valid'', JBool False)]
   \<and> map_of (check_pin Map.empty ''ZZZZZZ'') ''started'' = None"
  by (simp add: check_pin_def)

text \<open>
  Claim C6 at the room code \<^verbatim>\<open>ZZZZZZ\<close>, which is not in the registry:
  \<^verbatim>\<open>show_chart\<close> and \<^verbatim>\<open>show_leaderboard_api\<close> leave with a \<^verbatim>\<open>KeyError\<close> (an
  internal server error for the caller), where \<^verbatim>\<open>next_question\<close> raises
  \<^verbatim>\<open>HTTPException(404)\<close> and the websocket connect is closed with code 1008.
\<close>

theorem unknown_room_chart_leaderboard:
  "snd (show_chart Map.empty ''ZZZZZZ'') = ([], Inl KeyError)
   \<and> snd (show_leaderboard_api Map.empty ''ZZZZZZ'') = ([], Inl KeyError)
   \<and> snd (next_question Map.empty ''ZZZZZZ'' 0) = ([], Inl (HTTPException 404))
   \<and> snd (player_ws_connect Map.empty 1 ''ZZZZZZ'' ''p1'' ''Ann'') = ([Close 1 1008], Returned)"
  by (simp add: show_chart_def show_leaderboard_api_def send_leaderboard_def next_question_def
      player_ws_connect_def)

subsection \<open>Messages from participants\<close>

text \<open>The four \<^verbatim>\<open>continue\<close> guards, for a message that is a JSON object: it is dropped
  without any effect when the sender is host or screen (whatever the message is), when
  its \<^verbatim>\<open>type\<close> is not \<^verbatim>\<open>"answer"\<close>, when the room is locked, or when its
  \<^verbatim>\<open>option\<close> is a string that is not a colour of the table.\<close>

lemma receive_skipped:
  assumes "gs pin = Some g"
    and "role_of player_id \<noteq> ''player''
         \<or> (\<exists>kvs. data = JObj kvs
              \<and> (map_of kvs ''type'' \<noteq> Some (JStr ''answer'')
                 \<or> locked g
                 \<or> (\<exists>s. map_of kvs ''option'' = Some (JStr s)
                        \<and> map_of COLOR_OPTION_MAP s = None)))"
  shows "player_ws_receive gs pin player_id data now = (gs, [], Skipped)"
  using assms
  by (auto simp: player_ws_receive_def data_get_def color_option_get_def
           split: option.splits)

text \<open>
  Claim C5 on messages of another shape, sent by a player while the first question is
  open: the JSON array \<^verbatim>\<open>[]\<close> makes \<^verbatim>\<open>data.get\<close> raise \<^verbatim>\<open>AttributeError\<close>, and
  \<^verbatim>\<open>{"type": "answer", "option": []}\<close> makes the colour lookup raise \<^verbatim>\<open>TypeError\<close>
  (a list is unhashable). The handler catches \<^verbatim>\<open>WebSocketDisconnect\<close> only, so it
  leaves its loop with the exception. The third case is a string sent to a room that
  is still locked.
\<close>

theorem malformed_message_raises:
  "snd (player_ws_receive
          (run [CreateGame ''ABC123'', Connect 7 ''ABC123'' ''p1'' ''Ann'',
                NextQuestion ''ABC123'' 100])
          ''ABC123'' ''p1'' (JArr []) 101)
     = ([], LoopRaised AttributeError)
   \<and> snd (player_ws_receive
          (run [CreateGame ''ABC123'', Connect 7 ''ABC123'' ''p1'' ''Ann'',
                NextQuestion ''ABC123'' 100])
          ''ABC123'' ''p1'' (JObj [(''type'', JStr ''answer''), (''option'', JArr [])]) 101)
     = ([], LoopRaised TypeError)
   \<and> snd (player_ws_receive
          (run [CreateGame ''ABC123'', Connect 7 ''ABC123'' ''p1'' ''Ann''])
          ''ABC123'' ''p1'' (JStr ''answer'') 101)
     = ([], LoopRaised AttributeError)"
  by (simp add: scenario_defs handler_defs float_defs)

subsection \<open>Accepted answers and the stats broadcast\<close>

text \<open>In a room whose current question is inside the bank, a message that passes the
  four guards is counted and the new counts go to the connected host and screen entries,
  whether the answer is right or wrong. The hypotheses on the tally, the sender's
  entry and the clock hold in every room that a \<^verbatim>\<open>next_question\<close> call has opened.\<close>

lemma color_option_ids:
  "map_of COLOR_OPTION_MAP colour = Some selected_id \<Longrightarrow> selected_id \<noteq> []"
  by (auto simp: COLOR_OPTION_MAP_def OPTION_COLOR_MAP_def split: if_splits)

lemma bank_answers:
  assumes "0 \<le> i" "i < int (length QUESTIONS)"
  shows "\<exists>q c. py_index QUESTIONS i = Inr q \<and> map_of OPTION_COLOR_MAP (answer q) = Some c"
proof -
  from assms have "i = 0 \<or> i = 1" by (auto simp: QUESTIONS_def)
  then show ?thesis
    by (auto simp: py_index_def QUESTIONS_def OPTION_COLOR_MAP_def)
qed

lemma accepted_answer_broadcast:
  assumes room: "gs pin = Some g"
    and sender: "role_of player_id = ''player''" "map_of (players g) player_id = Some p"
    and msg: "data = JObj kvs" "map_of kvs ''type'' = Some (JStr ''answer'')"
      "map_of kvs ''option'' = Some (JStr colour)"
      "map_of COLOR_OPTION_MAP colour = Some selected_id"
    and window: "\<not> locked g" "player_id \<notin> answered g"
    and bank: "0 \<le> question_index g" "question_index g < int (length QUESTIONS)"
    and tally: "map_of (answers_count g) selected_id = Some c"
    and clock: "question_start g = Some t0" "t0 \<le> now"
  shows "\<exists>g'. player_ws_receive gs pin player_id data now =
             (gs(pin \<mapsto> g'),
              send_each (\<lambda>p. role p = ''HOST'' \<or> role p = ''SCREEN'')
                (\<lambda>p. Stats (answers_count g')) g',
              Handled)
           \<and> answers_count g' = AList.update selected_id (c + 1) (answers_count g)"
proof -
  from bank_answers[OF bank] obtain q cc where
    q: "py_index QUESTIONS (question_index g) = Inr q"
       "map_of OPTION_COLOR_MAP (answer q) = Some cc" by blast
  from answer_score_clock[OF clock(2)] obtain s where
    s: "answer_score (float_of (now - t0)) = Inr s" by blast
  have guards: "player_ws_receive gs pin player_id data now =
      count_and_score gs pin g player_id (JStr colour) selected_id now"
    using room sender(1) msg window color_option_ids[OF msg(4)]
    by (simp add: player_ws_receive_def data_get_def color_option_get_def)
  show ?thesis
  proof (cases "colour = cc")
    case True
    let ?g' = "g\<lparr>answers_count := AList.update selected_id (c + 1) (answers_count g),
                 players := AList.update player_id (p\<lparr>score := score p + s\<rparr>) (players g)\<rparr>"
    have "count_and_score gs pin g player_id (JStr colour) selected_id now =
            (gs(pin \<mapsto> ?g'),
             send_each (\<lambda>p. role p = ''HOST'' \<or> role p = ''SCREEN'')
               (\<lambda>p. Stats (answers_count ?g')) ?g', Handled)"
      using True tally q sender(2) clock(1) s
      by (simp add: count_and_score_def send_answer_stats_def Let_def)
    with guards show ?thesis
      by (intro exI[of _ ?g']) simp
  next
    case False
    let ?g' = "g\<lparr>answers_count := AList.update selected_id (c + 1) (answers_count g)\<rparr>"
    have "count_and_score gs pin g player_id (JStr colour) selected_id now =
            (gs(pin \<mapsto> ?g'),
             send_each (\<lambda>p. role p = ''HOST'' \<or> role p = ''SCREEN'')
               (\<lambda>p. Stats (answers_count ?g')) ?g', Handled)"
      using False tally q sender(2)
      by (simp add: count_and_score_def send_answer_stats_def Let_def)
    with guards show ?thesis
      by (intro exI[of _ ?g']) simp
  qed
qed

lemma stats_recipients:
  assumes "evs = send_each (\<lambda>p. role p = ''HOST'' \<or> role p = ''SCREEN'') (\<lambda>p. Stats counts) g"
  shows "(\<forall>e \<in> set evs. \<exists>p w. e = Send w (Stats counts)
            \<and> p \<in> snd ` set (players g) \<and> ws p = Some w
            \<and> (role p = ''HOST'' \<or> role p = ''SCREEN''))
       \<and> (\<forall>p \<in> snd ` set (players g). \<forall>w.
            (role p = ''HOST'' \<or> role p = ''SCREEN'') \<and> ws p = Some w
            \<longrightarrow> Send w (Stats counts) \<in> set evs)
       \<and> (\<forall>p \<in> snd ` set (players g). \<forall>w m.
            role p = ''player'' \<and> ws p = Some w
            \<and> (\<forall>p' \<in> snd ` set (players g). ws p' = Some w \<longrightarrow> role p' = ''player'')
            \<longrightarrow> Send w m \<notin> set evs)"
proof -
  have evs: "set evs = {Send w (Stats counts) | p w.
               p \<in> snd ` set (players g) \<and> ws p = Some w
               \<and> (role p = ''HOST'' \<or> role p = ''SCREEN'')}"
    unfolding assms set_send_each ..
  show ?thesis unfolding evs by auto
qed

text \<open>
  Claim C8 at a room that has run out of questions. While question 0 is open, a wrong
  answer is counted and the new counts are sent to host and screen, and to nobody else.
  After the host has advanced past the last question within the first window, the room
  has index 2, is still unlocked (no timer locks it any more) and has the counts of
  question 1. An answer then passes the four guards and is counted at line 175, but
  line 178 raises \<^verbatim>\<open>IndexError\<close> and line 197 is never reached: the tally has
  changed and no \<^verbatim>\<open>stats\<close> message is sent to anyone.
\<close>

theorem answer_after_last_question_not_broadcast:
  "snd (player_ws_receive (run quiz_ops) ''ABC123'' ''p1''
          (JObj [(''type'', JStr ''answer''), (''option'', JStr ''yellow'')]) 103)
     = ([Send 1 (Stats [(''A'', 0), (''B'', 1), (''C'', 0), (''D'', 0)]),
         Send 2 (Stats [(''A'', 0), (''B'', 1), (''C'', 0), (''D'', 0)])], Handled)
   \<and> map_option question_index (run finished_ops ''ABC123'') = Some 2
   \<and> map_option locked (run finished_ops ''ABC123'') = Some False
   \<and> map_option answers_count (run finished_ops ''ABC123'')
     = Some [(''A'', 0), (''B'', 0), (''C'', 0), (''D'', 0)]
   \<and> snd (player_ws_receive (run finished_ops) ''ABC123'' ''p1'' blue_answer 120)
     = ([], LoopRaised IndexError)
   \<and> map_option answers_count
        (fst (player_ws_receive (run finished_ops) ''ABC123'' ''p1'' blue_answer 120) ''ABC123'')
     = Some [(''A'', 1), (''B'', 0), (''C'', 0), (''D'', 0)]"
  by (simp add: finished_ops_def quiz_ops_def blue_answer_def scenario_defs handler_defs
      float_defs)

subsection \<open>The set of participants who answered\<close>

text \<open>No operation ever adds to \<^verbatim>\<open>answered\<close>: the set is created empty, reset to
  empty by \<^verbatim>\<open>next_question\<close> and only read at line 165.\<close>

lemma step_answered:
  assumes "\<forall>pin g. gs pin = Some g \<longrightarrow> answered g = {}"
  shows "\<forall>pin g. step gs op pin = Some g \<longrightarrow> answered g = {}"
proof (cases op)
  case (CreateGame x1)
  then show ?thesis using assms by (auto simp: create_game_def)
next
  case (CheckPin x2)
  then show ?thesis using assms by simp
next
  case (NextQuestion x31 x32)
  then show ?thesis using assms
    by (auto simp: next_question_def Let_def split: sum.splits option.splits if_splits)
next
  case (LockQuestion x41 x42)
  then show ?thesis using assms
    by (auto simp: lock_question_def Let_def split: sum.splits option.splits if_splits)
next
  case (ShowChartReq x5)
  then show ?thesis using assms by (auto simp: show_chart_def split: option.splits)
next
  case (ShowLeaderboardReq x6)
  then show ?thesis using assms by (auto simp: show_leaderboard_api_def split: sum.splits)
next
  case (Connect x71 x72 x73 x74)
  then show ?thesis using assms
    by (auto simp: player_ws_connect_def Let_def split: sum.splits option.splits if_splits)
next
  case (Receive x81 x82 x83 x84)
  then show ?thesis using assms
    by (auto simp: player_ws_receive_def count_and_score_def Let_def
             split: sum.splits option.splits if_splits)
next
  case (Disconnect x91 x92)
  then show ?thesis using assms
    by (auto simp: player_ws_disconnect_def Let_def split: sum.splits option.splits if_splits)
qed

lemma run_snoc: "run (ops @ [op]) = step (run ops) op"
  by (simp add: run_def)

lemma run_answered: "run ops pin = Some g \<Longrightarrow> answered g = {}"
proof (induction ops arbitrary: pin g rule: rev_induct)
  case Nil
  then show ?case by (simp add: run_def)
next
  case (snoc op ops)
  from snoc.IH have "\<forall>pin g. run ops pin = Some g \<longrightarrow> answered g = {}" by blast
  from step_answered[OF this, of op] snoc.prems show ?case
    by (simp add: run_snoc)
qed

text \<open>
  Claim C2 at a concrete run: a player connects, the first question opens, and the
  player sends the same correct answer twice at the moment the window opens. After the
  first message option A has count 1 and \<^verbatim>\<open>answered\<close> is still empty; after the
  second message option A has count 2 and the player's score is 2000, twice
  \<^verbatim>\<open>BASE_SCORE\<close>.
\<close>

theorem double_answer_counted_twice:
  "map_option answers_count
     (run [CreateGame ''ABC123'', Connect 7 ''ABC123'' ''p1'' ''Ann'', NextQuestion ''ABC123'' 100,
           Receive ''ABC123'' ''p1'' blue_answer 100] ''ABC123'')
     = Some [(''A'', 1), (''B'', 0), (''C'', 0), (''D'', 0)]
   \<and> map_option answers_count
     (run [CreateGame ''ABC123'', Connect 7 ''ABC123'' ''p1'' ''Ann'', NextQuestion ''ABC123'' 100,
           Receive ''ABC123'' ''p1'' blue_answer 100,
           Receive ''ABC123'' ''p1'' blue_answer 100] ''ABC123'')
     = Some [(''A'', 2), (''B'', 0), (''C'', 0), (''D'', 0)]
   \<and> map_option (\<lambda>g. map (\<lambda>(k, p). (k, score p)) (players g))
     (run [CreateGame ''ABC123'', Connect 7 ''ABC123'' ''p1'' ''Ann'', NextQuestion ''ABC123'' 100,
           Receive ''ABC123'' ''p1'' blue_answer 100,
           Receive ''ABC123'' ''p1'' blue_answer 100] ''ABC123'')
     = Some [(''p1'', 2000)]
   \<and> map_option answered
     (run [CreateGame ''ABC123'', Connect 7 ''ABC123'' ''p1'' ''Ann'', NextQuestion ''ABC123'' 100,
           Receive ''ABC123'' ''p1'' blue_answer 100] ''ABC123'')
     = Some {}"
  by (simp add: scenario_defs handler_defs float_defs blue_answer_def)

subsection \<open>Scores over the lifetime of a room\<close>

lemma score_mono_step:
  assumes "gs pin = Some g" and "map_of (players g) pid = Some p" and "op \<noteq> CreateGame pin"
  shows "\<exists>g' p'. step gs op pin = Some g' \<and> map_of (players g') pid = Some p' \<and> score p \<le> score p'"
proof (cases op)
  case (CreateGame x1)
  then show ?thesis using assms by (auto simp: create_game_def)
next
  case (CheckPin x2)
  then show ?thesis using assms by simp
next
  case (NextQuestion x31 x32)
  then show ?thesis using assms
    by (auto simp: next_question_def Let_def split: sum.splits option.splits if_splits)
next
  case (LockQuestion x41 x42)
  then show ?thesis using assms
    by (auto simp: lock_question_def Let_def split: sum.splits option.splits if_splits)
next
  case (ShowChartReq x5)
  then show ?thesis using assms
    by (auto simp: show_chart_def split: option.splits)
next
  case (ShowLeaderboardReq x6)
  then show ?thesis using assms
    by (auto simp: show_leaderboard_api_def split: sum.splits)
next
  case (Connect x71 x72 x73 x74)
  then show ?thesis using assms
    by (auto simp: player_ws_connect_def Let_def update_conv' split: sum.splits option.splits)
next
  case (Receive x81 x82 x83 x84)
  then show ?thesis using assms
    by (auto simp: player_ws_receive_def count_and_score_def Let_def update_conv'
             split: sum.splits option.splits if_splits dest: answer_score_nonneg)
next
  case (Disconnect x91 x92)
  then show ?thesis using assms
    by (auto simp: player_ws_disconnect_def Let_def update_conv' split: sum.splits option.splits)
qed

lemma scores_nonneg_step:
  assumes "scores_nonneg gs"
  shows "scores_nonneg (step gs op)"
proof (cases op)
  case (CreateGame x1)
  then show ?thesis using assms by (auto simp: scores_nonneg_def create_game_def)
next
  case (CheckPin x2)
  then show ?thesis using assms by simp
next
  case (NextQuestion x31 x32)
  then show ?thesis using assms
    by (auto simp: scores_nonneg_def next_question_def Let_def
             split: sum.splits option.splits if_splits)
next
  case (LockQuestion x41 x42)
  then show ?thesis using assms
    by (auto simp: scores_nonneg_def lock_question_def Let_def
             split: sum.splits option.splits if_splits)
next
  case (ShowChartReq x5)
  then show ?thesis using assms
    by (auto simp: show_chart_def split: option.splits)
next
  case (ShowLeaderboardReq x6)
  then show ?thesis using assms
    by (auto simp: show_leaderboard_api_def split: sum.splits)
next
  case (Connect x71 x72 x73 x74)
  then show ?thesis using assms
    by (auto simp: scores_nonneg_def player_ws_connect_def Let_def update_conv'
             split: sum.splits option.splits if_splits)
next
  case (Receive x81 x82 x83 x84)
  then show ?thesis using assms
    by (auto simp: scores_nonneg_def player_ws_receive_def count_and_score_def Let_def
                   update_conv'
             split: sum.splits option.splits if_splits dest: answer_score_nonneg)
next
  case (Disconnect x91 x92)
  then show ?thesis using assms
    by (auto simp: scores_nonneg_def player_ws_disconnect_def Let_def update_conv'
             split: sum.splits option.splits if_splits)
qed

lemma scores_nonneg_run: "scores_nonneg (run ops)"
proof (induction ops rule: rev_induct)
  case Nil
  then show ?case by (simp add: run_def scores_nonneg_def)
next
  case (snoc op ops)
  then show ?case by (simp add: run_snoc scores_nonneg_step)
qed

lemma reconnect_keeps_score:
  assumes "gs pin = Some g" and "map_of (players g) pid = Some p"
  shows "\<exists>g' p'. step gs (Connect w pin pid nm) pin = Some g'
            \<and> map_of (players g') pid = Some p' \<and> score p' = score p"
  using assms
  by (auto simp: player_ws_connect_def Let_def update_conv' split: sum.splits)

text \<open>
  Claim C9. In every state the system can reach from the empty registry, every
  participant's score is a non-negative integer. Every operation other than creating a
  room under the same code again (answer message, connect and reconnect, disconnect,
  advance, deadline callback, chart and leaderboard requests, also on other rooms) keeps
  the participant in the room with a score at least as large as before, and a reconnect
  under the same participant id keeps the score as it is.
\<close>

theorem scores_never_decrease:
  assumes "run ops pin = Some g" and "map_of (players g) pid = Some p"
  shows "0 \<le> score p
       \<and> (\<forall>op. op \<noteq> CreateGame pin \<longrightarrow>
             (\<exists>g' p'. run (ops @ [op]) pin = Some g' \<and> map_of (players g') pid = Some p'
                     \<and> score p \<le> score p'))
       \<and> (\<forall>w nm. \<exists>g' p'. run (ops @ [Connect w pin pid nm]) pin = Some g'
                     \<and> map_of (players g') pid = Some p' \<and> score p' = score p)"
proof (intro conjI allI impI)
  from scores_nonneg_run[of ops] assms show "0 \<le> score p"
    unfolding scores_nonneg_def by blast
  show "\<exists>g' p'. run (ops @ [op]) pin = Some g' \<and> map_of (players g') pid = Some p'
                \<and> score p \<le> score p'" if "op \<noteq> CreateGame pin" for op
    unfolding run_snoc using assms that by (rule score_mono_step)
  show "\<exists>g' p'. run (ops @ [Connect w pin pid nm]) pin = Some g'
                \<and> map_of (players g') pid = Some p' \<and> score p' = score p" for w nm
    unfolding run_snoc using assms by (rule reconnect_keeps_score)
qed

theorem scores_never_decrease_witness:
  "\<exists>g p. run (quiz_ops @ [Receive ''ABC123'' ''p1'' blue_answer 103]) ''ABC123'' = Some g
        \<and> map_of (players g) ''p1'' = Some p \<and> score p = 800 \<and> 0 \<le> score p
        \<and> (\<exists>g' p'. run ((quiz_ops @ [Receive ''ABC123'' ''p1'' blue_answer 103])
                          @ [NextQuestion ''ABC123'' 120]) ''ABC123'' = Some g'
                  \<and> map_of (players g') ''p1'' = Some p' \<and> score p \<le> score p')
        \<and> (\<exists>g' p'. run ((quiz_ops @ [Receive ''ABC123'' ''p1'' blue_answer 103])
                          @ [Connect 9 ''ABC123'' ''p1'' ''Ann'']) ''ABC123'' = Some g'
                  \<and> map_of (players g') ''p1'' = Some p' \<and> score p' = score p)"
proof -
  obtain g p where h:
    "run (quiz_ops @ [Receive ''ABC123'' ''p1'' blue_answer 103]) ''ABC123'' = Some g"
    "map_of (players g) ''p1'' = Some p" "score p = 800"
    by (simp add: quiz_ops_def blue_answer_def scenario_defs handler_defs float_defs)
  have ne: "NextQuestion ''ABC123'' 120 \<noteq> CreateGame ''ABC123''"
    by simp
  from scores_never_decrease [OF h(1) h(2)] h ne show ?thesis
    by blast
qed

end
